theory Spec2Isabelle
  imports Main "HOL-Library.Sublist"
begin

section \<open>The bounded request queue\<close>

text \<open>
  The class \<open>RequestQueue\<close> owns a list of pending tasks, the counter \<open>activeCount\<close>
  and the bound \<open>maxConcurrency\<close> given to its constructor. JavaScript runs it on one
  thread, so the code between two suspension points is atomic. There are two such blocks:
  \<^item> \<open>add(task)\<close>: the executor of the new promise pushes the wrapped task and calls
    \<open>process()\<close>, which runs up to its \<open>await task()\<close>;
  \<^item> the continuation of a \<open>process()\<close> activation once the task it awaits has settled:
    the \<open>finally\<close> block decrements \<open>activeCount\<close> and calls \<open>process()\<close> again.
    The wrapper pushed by \<open>add\<close> catches every failure of the task, so this block runs
    whether the task succeeded or failed.

  Besides the three fields of the class the state holds what the class keeps implicitly:
  \<open>awaiting\<close>, the tasks of the \<open>process()\<close> activations suspended at \<open>await task()\<close>,
  and \<open>history\<close>, the log of the starts and completions seen so far. The counter and
  the bound are integers: the counter moves by steps of one from 0, and the class, which
  the module does not export, is constructed with the bounds 1 and 10 only.
\<close>

datatype 'a log = Started 'a | Finished 'a

record 'a RequestQueue =
  queue :: "'a list"
  activeCount :: int
  maxConcurrency :: int
  awaiting :: "'a list"
  history :: "'a log list"

text \<open>\<open>new RequestQueue(maxConcurrency)\<close>\<close>

definition new_RequestQueue :: "int \<Rightarrow> 'a RequestQueue" where
  "new_RequestQueue n =
     \<lparr>queue = [], activeCount = 0, maxConcurrency = n, awaiting = [], history = []\<rparr>"

text \<open>
  \<open>process()\<close> up to its \<open>await\<close>: return at once when the bound is reached or nothing is
  pending; otherwise count the task, shift it off the queue and call it.
\<close>

definition process :: "'a RequestQueue \<Rightarrow> 'a RequestQueue" where
  "process q =
     (if activeCount q \<ge> maxConcurrency q \<or> length (queue q) = 0 then q
      else case queue q of
             [] \<Rightarrow> q
           | task # rest \<Rightarrow>
               q\<lparr>activeCount := activeCount q + 1,
                 queue := rest,
                 awaiting := awaiting q @ [task],
                 history := history q @ [Started task]\<rparr>)"

text \<open>\<open>this.queue.push(...)\<close>, the first statement of \<open>add\<close>.\<close>

definition push :: "'a \<Rightarrow> 'a RequestQueue \<Rightarrow> 'a RequestQueue" where
  "push task q = q\<lparr>queue := queue q @ [task]\<rparr>"

definition add :: "'a \<Rightarrow> 'a RequestQueue \<Rightarrow> 'a RequestQueue" where
  "add task q = process (push task q)"

text \<open>
  The \<open>finally\<close> block of the activation that awaited \<open>task\<close>: \<open>this.activeCount--\<close>,
  then \<open>this.process()\<close>.
\<close>

definition release :: "'a \<Rightarrow> 'a RequestQueue \<Rightarrow> 'a RequestQueue" where
  "release task q =
     q\<lparr>activeCount := activeCount q - 1,
       awaiting := remove1 task (awaiting q),
       history := history q @ [Finished task]\<rparr>"

definition settle :: "'a \<Rightarrow> 'a RequestQueue \<Rightarrow> 'a RequestQueue" where
  "settle task q = process (release task q)"

text \<open>
  What happens to a queue: a submission, or the completion of a task that was started
  and has not completed yet. \<open>states es q\<close> is the list of all states the queue passes
  through while the events \<open>es\<close> happen from \<open>q\<close>, the states between the two statements
  of a block included; it is \<open>None\<close> when \<open>es\<close> lets a task complete that is not running.
\<close>

datatype 'a event = Add 'a | Settle 'a

fun states :: "'a event list \<Rightarrow> 'a RequestQueue \<Rightarrow> 'a RequestQueue list option" where
  "states [] q = Some [q]"
| "states (Add task # es) q =
     (case states es (add task q) of
        None \<Rightarrow> None
      | Some ss \<Rightarrow> Some (q # push task q # ss))"
| "states (Settle task # es) q =
     (if task \<in> set (awaiting q) then
        (case states es (settle task q) of
           None \<Rightarrow> None
         | Some ss \<Rightarrow> Some (q # release task q # ss))
      else None)"




section \<open>The fetch wrapper with exponential backoff\<close>

text \<open>
  \<open>fetchWithRetry\<close> calls the platform's \<open>fetch\<close> and looks only at the status of the
  response. The network is a parameter: \<open>fetch k\<close> is the outcome of the \<open>k\<close>-th call
  (counted from 0) that the wrapper makes, either a response or the rejection of the
  promise (a transport failure), which the wrapper does not catch. The result records
  what the caller gets, the delays passed to \<open>setTimeout\<close> in order, and the number of
  calls of \<open>fetch\<close>.
\<close>

record Response =
  status :: int

datatype fetch_error = NetworkFailure

record retry_result =
  outcome :: "fetch_error + Response"
  delays :: "int list"
  calls :: nat

text \<open>The test of line 52: status 429 or 500..599.\<close>

definition retryable :: "int \<Rightarrow> bool" where
  "retryable st \<longleftrightarrow> st = 429 \<or> (st \<ge> 500 \<and> st \<le> 599)"

text \<open>
  The \<open>while\<close> loop, from the state \<open>attempt\<close>, with \<open>n\<close> calls made and the delays
  \<open>ds\<close> waited so far. \<open>Math.pow(2, attempt) * 2000\<close> is exact for the attempts a
  run reaches from 0 with small bounds such as the default 3. The
  \<open>return fetch(url, options)\<close> after the loop is reached only when the loop is never
  entered.
\<close>

function fetchWithRetry_loop ::
  "(nat \<Rightarrow> fetch_error + Response) \<Rightarrow> int \<Rightarrow> int \<Rightarrow> nat \<Rightarrow> int list \<Rightarrow> retry_result" where
  "fetchWithRetry_loop fetch maxRetries attempt n ds =
     (if attempt \<le> maxRetries then
        (case fetch n of
           Inl e \<Rightarrow> \<lparr>outcome = Inl e, delays = ds, calls = Suc n\<rparr>
         | Inr response \<Rightarrow>
             if retryable (status response) then
               if attempt = maxRetries
               then \<lparr>outcome = Inr response, delays = ds, calls = Suc n\<rparr>
               else fetchWithRetry_loop fetch maxRetries (attempt + 1) (Suc n)
                      (ds @ [2 ^ nat attempt * 2000])
             else \<lparr>outcome = Inr response, delays = ds, calls = Suc n\<rparr>)
      else \<lparr>outcome = fetch n, delays = ds, calls = Suc n\<rparr>)"
  by pat_completeness auto
termination
  by (relation "measure (\<lambda>(fetch, maxRetries, attempt, n, ds). nat (maxRetries + 1 - attempt))")
    auto

declare fetchWithRetry_loop.simps [simp del]

definition fetchWithRetry :: "(nat \<Rightarrow> fetch_error + Response) \<Rightarrow> int \<Rightarrow> retry_result" where
  "fetchWithRetry fetch maxRetries = fetchWithRetry_loop fetch maxRetries 0 0 []"

section \<open>Normalizing the configured host\<close>

text \<open>
  A JavaScript string is modelled by a \<^typ>\<open>string\<close> whose characters are its code
  units, for strings of code units up to \<open>0xFF\<close>. In that range \<open>trim()\<close> removes the
  code units \<open>0x09\<close>..\<open>0x0D\<close>, \<open>0x20\<close> and \<open>0xA0\<close> from both ends.
\<close>

definition is_whitespace :: "char \<Rightarrow> bool" where
  "is_whitespace c \<longleftrightarrow>
     c \<in> {CHR 0x09, CHR 0x0A, CHR 0x0B, CHR 0x0C, CHR 0x0D, CHR 0x20, CHR 0xA0}"

definition trim :: "string \<Rightarrow> string" where
  "trim s = rev (dropWhile is_whitespace (rev (dropWhile is_whitespace s)))"

text \<open>
  \<open>.replace(/\/+$/, "")\<close>: the leftmost match of one or more slashes followed by the
  end of the string is the whole run of slashes that ends the string.
\<close>

definition strip_trailing_slashes :: "string \<Rightarrow> string" where
  "strip_trailing_slashes s = rev (dropWhile (\<lambda>c. c = CHR ''/'') (rev s))"

definition startsWith :: "string \<Rightarrow> string \<Rightarrow> bool" where
  "startsWith s p \<longleftrightarrow> take (length p) s = p"

text \<open>
  \<open>/^https?:\/\//i.test(url)\<close>: the letters match in either case (without the \<open>u\<close>
  flag no code unit above \<open>0x7F\<close> matches an ASCII letter), the \<open>s\<close> is optional.
\<close>

definition matches_ci :: "char \<Rightarrow> char \<Rightarrow> char \<Rightarrow> bool" where
  "matches_ci lower upper c \<longleftrightarrow> c = lower \<or> c = upper"

fun has_http_scheme :: "string \<Rightarrow> bool" where
  "has_http_scheme (h # t1 # t2 # p # rest) =
     (matches_ci CHR ''h'' CHR ''H'' h \<and> matches_ci CHR ''t'' CHR ''T'' t1 \<and>
      matches_ci CHR ''t'' CHR ''T'' t2 \<and> matches_ci CHR ''p'' CHR ''P'' p \<and>
      (startsWith rest ''://'' \<or>
       (case rest of
          [] \<Rightarrow> False
        | s # rest' \<Rightarrow> matches_ci CHR ''s'' CHR ''S'' s \<and> startsWith rest' ''://'')))"
| "has_http_scheme _ = False"

definition default_origin :: string where
  "default_origin = ''https://generativelanguage.googleapis.com''"

definition normalizeBaseUrl :: "string \<Rightarrow> string" where
  "normalizeBaseUrl host =
     (let url = strip_trailing_slashes (trim host) in
      if url = [] then default_origin
      else if startsWith url ''/'' then url
      else if \<not> has_http_scheme url then ''https://'' @ url
      else url)"

section \<open>Values of the platform: parsed JSON\<close>

text \<open>
  The settings blob and the body of a response are parsed JSON (\<open>any\<close> in the source).
  An object is the list of its properties, the first binding of a name being its value.
  A number enters the code below through its truthiness only.
\<close>

datatype jsval =
    Undefined
  | Null
  | Bool bool
  | Num int
  | Str string
  | Arr "jsval list"
  | Obj "(string \<times> jsval) list"

datatype js_error = TypeError | SyntaxError | OtherError

fun truthy :: "jsval \<Rightarrow> bool" where
  "truthy Undefined = False"
| "truthy Null = False"
| "truthy (Bool b) = b"
| "truthy (Num n) = (n \<noteq> 0)"
| "truthy (Str s) = (s \<noteq> [])"
| "truthy (Arr xs) = True"
| "truthy (Obj kvs) = True"

text \<open>
  \<open>v.name\<close>, for the names read below (\<open>candidates\<close>, \<open>content\<close>, \<open>parts\<close>, \<open>text\<close>,
  \<open>inlineData\<close>, \<open>data\<close>, \<open>apiHost\<close>, \<open>apiKey\<close>), none of which a built-in prototype
  defines: a \<open>TypeError\<close> on
  \<open>null\<close> and \<open>undefined\<close>, the property of an object, \<open>undefined\<close> on anything else.
\<close>

fun get_prop :: "jsval \<Rightarrow> string \<Rightarrow> js_error + jsval" where
  "get_prop Undefined name = Inl TypeError"
| "get_prop Null name = Inl TypeError"
| "get_prop (Obj kvs) name = Inr (case map_of kvs name of None \<Rightarrow> Undefined | Some v \<Rightarrow> v)"
| "get_prop v name = Inr Undefined"

text \<open>\<open>v?.name\<close>: \<open>undefined\<close> on \<open>null\<close> and \<open>undefined\<close>, \<open>v.name\<close> otherwise.\<close>

fun opt_prop :: "jsval \<Rightarrow> string \<Rightarrow> jsval" where
  "opt_prop Undefined name = Undefined"
| "opt_prop Null name = Undefined"
| "opt_prop (Obj kvs) name = (case map_of kvs name of None \<Rightarrow> Undefined | Some v \<Rightarrow> v)"
| "opt_prop v name = Undefined"

text \<open>\<open>v?.[0]\<close>: the first element of an array, the first code unit of a string.\<close>

fun opt_index0 :: "jsval \<Rightarrow> jsval" where
  "opt_index0 (Arr xs) = (case xs of [] \<Rightarrow> Undefined | x # _ \<Rightarrow> x)"
| "opt_index0 (Str s) = (case s of [] \<Rightarrow> Undefined | c # _ \<Rightarrow> Str [c])"
| "opt_index0 (Obj kvs) = (case map_of kvs ''0'' of None \<Rightarrow> Undefined | Some v \<Rightarrow> v)"
| "opt_index0 v = Undefined"

text \<open>
  The values a \<open>for (const part of parts)\<close> visits: the elements of an array, the
  characters of a string; a \<open>TypeError\<close> on a value that is not iterable.
\<close>

fun iterate :: "jsval \<Rightarrow> js_error + jsval list" where
  "iterate (Arr xs) = Inr xs"
| "iterate (Str s) = Inr (map (\<lambda>c. Str [c]) s)"
| "iterate v = Inl TypeError"

section \<open>The configuration resolver\<close>

text \<open>
  \<open>getConfig\<close> reads the item \<open>proxy_config\<close> of the local storage: \<open>saved\<close> is \<open>None\<close>
  for \<open>null\<close> (no such item). \<open>JSON.parse\<close> belongs to the platform and is a parameter;
  \<open>Inl\<close> is the exception it throws. The \<open>try\<close> block returns what the parser returns,
  the empty \<open>catch\<close> falls through to the built-in configuration.
\<close>

definition builtin_config :: jsval where
  "builtin_config =
     Obj [(''apiHost'', Str []),
          (''apiKey'', Str []),
          (''textModel'', Str ''gemini-3-flash-preview''),
          (''imageModel'', Str ''gemini-3-pro-image-preview'')]"

definition getConfig :: "(string \<Rightarrow> js_error + jsval) \<Rightarrow> string option \<Rightarrow> js_error + jsval" where
  "getConfig JSON_parse saved =
     (let attempt =
        (case saved of
           None \<Rightarrow> None
         | Some s \<Rightarrow>
             if s \<noteq> [] then (case JSON_parse s of Inr v \<Rightarrow> Some v | Inl e \<Rightarrow> None)
             else None)
      in case attempt of Some v \<Rightarrow> Inr v | None \<Rightarrow> Inr builtin_config)"

section \<open>Decoding a response\<close>

text \<open>
  The three image operations end with the same lines on \<open>data\<close>, the parsed body that
  the dispatcher resolved to: \<open>data.candidates?.[0]?.content?.parts || []\<close>, then a scan of
  the parts for the first truthy \<open>inlineData?.data\<close>. \<open>base64ToBlobUrl\<close> builds on
  \<open>atob\<close> and \<open>URL.createObjectURL\<close> of the platform and is a parameter. The result is
  \<open>Inr None\<close> for \<open>return undefined\<close>.
\<close>

definition response_parts :: "jsval \<Rightarrow> js_error + jsval" where
  "response_parts data =
     (case get_prop data ''candidates'' of
        Inl e \<Rightarrow> Inl e
      | Inr candidates \<Rightarrow>
          let parts = opt_prop (opt_prop (opt_index0 candidates) ''content'') ''parts''
          in Inr (if truthy parts then parts else Arr []))"

fun scan_parts :: "(jsval \<Rightarrow> js_error + string) \<Rightarrow> jsval list \<Rightarrow> js_error + string option" where
  "scan_parts base64ToBlobUrl [] = Inr None"
| "scan_parts base64ToBlobUrl (part # parts) =
     (case get_prop part ''inlineData'' of
        Inl e \<Rightarrow> Inl e
      | Inr inlineData \<Rightarrow>
          let b64 = opt_prop inlineData ''data'' in
          if truthy b64 then
            (case base64ToBlobUrl b64 of Inl e \<Rightarrow> Inl e | Inr url \<Rightarrow> Inr (Some url))
          else scan_parts base64ToBlobUrl parts)"

definition first_inline_image ::
  "(jsval \<Rightarrow> js_error + string) \<Rightarrow> jsval \<Rightarrow> js_error + string option" where
  "first_inline_image base64ToBlobUrl data =
     (case response_parts data of
        Inl e \<Rightarrow> Inl e
      | Inr parts \<Rightarrow>
          (case iterate parts of
             Inl e \<Rightarrow> Inl e
           | Inr ps \<Rightarrow> scan_parts base64ToBlobUrl ps))"

text \<open>
  The operations, from the outcome of the dispatch on: a failed dispatch is rethrown,
  a resolved one is decoded.
\<close>

definition generateStoryboardFrame ::
  "(jsval \<Rightarrow> js_error + string) \<Rightarrow> js_error + jsval \<Rightarrow> js_error + string option" where
  "generateStoryboardFrame base64ToBlobUrl dispatched =
     (case dispatched of Inl e \<Rightarrow> Inl e | Inr data \<Rightarrow> first_inline_image base64ToBlobUrl data)"

definition editFrame ::
  "(jsval \<Rightarrow> js_error + string) \<Rightarrow> js_error + jsval \<Rightarrow> js_error + string option" where
  "editFrame base64ToBlobUrl dispatched =
     (case dispatched of Inl e \<Rightarrow> Inl e | Inr data \<Rightarrow> first_inline_image base64ToBlobUrl data)"

definition refineImageClarity ::
  "(jsval \<Rightarrow> js_error + string) \<Rightarrow> js_error + jsval \<Rightarrow> js_error + string option" where
  "refineImageClarity base64ToBlobUrl dispatched =
     (case dispatched of Inl e \<Rightarrow> Inl e | Inr data \<Rightarrow> first_inline_image base64ToBlobUrl data)"

text \<open>\<open>data.candidates?.[0]?.content?.parts?.[0]?.text || "Asset"\<close>\<close>

definition analyzeAsset :: "js_error + jsval \<Rightarrow> js_error + jsval" where
  "analyzeAsset dispatched =
     (case dispatched of
        Inl e \<Rightarrow> Inl e
      | Inr data \<Rightarrow>
          (case get_prop data ''candidates'' of
             Inl e \<Rightarrow> Inl e
           | Inr candidates \<Rightarrow>
               let first_text =
                 opt_prop (opt_index0 (opt_prop (opt_prop (opt_index0 candidates) ''content'')
                   ''parts'')) ''text''
               in Inr (if truthy first_text then first_text else Str ''Asset'')))"

text \<open>
  Following the words "the first text part": the text of the first part, in order,
  that carries a text; the placeholder when no part does.
\<close>

fun spec_first_text_part :: "jsval list \<Rightarrow> jsval" where
  "spec_first_text_part [] = Str ''Asset''"
| "spec_first_text_part (part # parts) =
     (if truthy (opt_prop part ''text'') then opt_prop part ''text''
      else spec_first_text_part parts)"

section \<open>Routing a dispatch to a lane\<close>

text \<open>
  The payloads are built inside the module by the five operations: an object with
  \<open>contents\<close> and, for two of them, \<open>generationConfig\<close> holding an object \<open>imageConfig\<close>.
  \<open>model.includes('image')\<close> is the substring test.
\<close>

record ImageConfig =
  aspectRatio :: "string option"
  imageSize :: "string option"









record 'a lanes =
  imageQueue :: "'a RequestQueue"
  textQueue :: "'a RequestQueue"


text \<open>
  The outcome of the synchronous part of a dispatch: the exception that rejected it
  before \<open>queue.add\<close>, if any, and the two queues afterwards.
\<close>

record 'a dispatched =
  rejected :: "js_error option"
  lanes_after :: "'a lanes"






section \<open>Invariants of the queue\<close>

definition bounded :: "int \<Rightarrow> 'a RequestQueue \<Rightarrow> bool" where
  "bounded n q \<longleftrightarrow>
     maxConcurrency q = n \<and> activeCount q = int (length (awaiting q)) \<and> activeCount q \<le> n"



section \<open>The concurrency bound\<close>

lemma bounded_new: "0 \<le> n \<Longrightarrow> bounded n (new_RequestQueue n)"
  by (simp add: bounded_def new_RequestQueue_def)

lemma bounded_push: "bounded n q \<Longrightarrow> bounded n (push task q)"
  by (simp add: bounded_def push_def)

lemma bounded_process: "bounded n q \<Longrightarrow> bounded n (process q)"
  by (auto simp: bounded_def process_def split: list.splits)

lemma bounded_release:
  assumes "bounded n q" and "task \<in> set (awaiting q)"
  shows "bounded n (release task q)"
proof -
  from assms(2) have "length (awaiting q) > 0"
    by (cases "awaiting q") auto
  then have "int (length (awaiting q) - 1) = int (length (awaiting q)) - 1"
    by linarith
  with assms show ?thesis
    by (simp add: bounded_def release_def length_remove1)
qed

lemma bounded_states:
  "bounded n q \<Longrightarrow> states es q = Some ss \<Longrightarrow> s \<in> set ss \<Longrightarrow> bounded n s"
proof (induction es arbitrary: q ss)
  case Nil
  then show ?case by auto
next
  case (Cons e es)
  show ?case
  proof (cases e)
    case (Add task)
    with Cons.prems obtain ss' where
      ss': "states es (add task q) = Some ss'" and ss: "ss = q # push task q # ss'"
      by (auto split: option.splits)
    have "bounded n (add task q)"
      using Cons.prems(1) by (simp add: add_def bounded_push bounded_process)
    with Cons.IH ss' have "s \<in> set ss' \<Longrightarrow> bounded n s" by blast
    with Cons.prems ss show ?thesis
      by (auto simp: bounded_push)
  next
    case (Settle task)
    with Cons.prems obtain ss' where
      run: "task \<in> set (awaiting q)" and
      ss': "states es (settle task q) = Some ss'" and ss: "ss = q # release task q # ss'"
      by (auto split: option.splits if_splits)
    have "bounded n (settle task q)"
      using Cons.prems(1) run by (simp add: settle_def bounded_release bounded_process)
    with Cons.IH ss' have "s \<in> set ss' \<Longrightarrow> bounded n s" by blast
    with Cons.prems ss run show ?thesis
      by (auto simp: bounded_release)
  qed
qed

text \<open>
  C1. A queue constructed with the bound \<open>n\<close> keeps \<open>0 \<le> activeCount \<le> n\<close> in every
  state it passes through, for every pattern of submissions and completions; and
  \<open>process\<close>, the only code that takes a task off the queue, takes one (and starts it)
  only in a state where \<open>activeCount < maxConcurrency\<close>. The bound is a number of tasks,
  \<open>0 \<le> n\<close>; the program constructs its queues with 1 and 10.
\<close>

theorem activeCount_bounded:
  assumes "0 \<le> n" and "states es (new_RequestQueue n) = Some ss" and "s \<in> set ss"
  shows "0 \<le> activeCount s \<and> activeCount s \<le> n \<and>
         (queue (process s) \<noteq> queue s \<or> history (process s) \<noteq> history s
            \<longrightarrow> activeCount s < n)"
proof -
  have b: "bounded n s"
    using bounded_states [OF bounded_new [OF assms(1)] assms(2) assms(3)] .
  then have "0 \<le> activeCount s" and "activeCount s \<le> n"
    by (simp_all add: bounded_def)
  moreover have "queue (process s) \<noteq> queue s \<or> history (process s) \<noteq> history s
      \<longrightarrow> activeCount s < n"
    using b by (auto simp: bounded_def process_def split: if_splits)
  ultimately show ?thesis by blast
qed

theorem activeCount_bounded_witness:
  "(0::int) \<le> 1 \<and>
   states [Add (1::nat), Add 2, Settle 1] (new_RequestQueue 1) \<noteq> None \<and>
   activeCount (last (the (states [Add (1::nat), Add 2, Settle 1] (new_RequestQueue 1)))) = 1 \<and>
   activeCount (last (the (states [Add (1::nat), Add 2, Settle 1] (new_RequestQueue 1)))) \<le> 1 \<and>
   queue (the (states [Add (1::nat), Add 2, Settle 1] (new_RequestQueue 1)) ! 1) = [1] \<and>
   queue (process (the (states [Add (1::nat), Add 2, Settle 1] (new_RequestQueue 1)) ! 1)) = [] \<and>
   activeCount (the (states [Add (1::nat), Add 2, Settle 1] (new_RequestQueue 1)) ! 1) < 1"
proof -
  define ss where "ss = the (states [Add (1::nat), Add 2, Settle 1] (new_RequestQueue 1))"
  have e: "states [Add (1::nat), Add 2, Settle 1] (new_RequestQueue 1) = Some ss"
    unfolding ss_def by code_simp
  have m: "last ss \<in> set ss" and m1: "ss ! 1 \<in> set ss"
    unfolding ss_def by code_simp+
  have v: "activeCount (last ss) = 1"
    unfolding ss_def by code_simp
  have q: "queue (ss ! 1) = [1]" and p: "queue (process (ss ! 1)) = []"
    unfolding ss_def by code_simp+
  have "activeCount (last ss) \<le> 1"
    using activeCount_bounded [of 1, OF _ e m] by simp
  moreover have "activeCount (ss ! 1) < 1"
    using activeCount_bounded [of 1, OF _ e m1] q p by simp
  moreover have "the (states [Add (1::nat), Add 2, Settle 1] (new_RequestQueue 1)) = ss"
    using e by simp
  ultimately show ?thesis
    using v e q p by simp
qed

section \<open>Admission in submission order\<close>
















section \<open>Retries of the fetch wrapper\<close>

lemma loop_retry:
  assumes "attempt < maxRetries" and "fetch n = Inr r" and "retryable (status r)"
  shows "fetchWithRetry_loop fetch maxRetries attempt n ds =
         fetchWithRetry_loop fetch maxRetries (attempt + 1) (Suc n)
           (ds @ [2 ^ nat attempt * 2000])"
  using assms by (subst fetchWithRetry_loop.simps) simp

lemma loop_exhausted:
  assumes "attempt = maxRetries" and "fetch n = Inr r" and "retryable (status r)"
  shows "fetchWithRetry_loop fetch maxRetries attempt n ds =
         \<lparr>outcome = Inr r, delays = ds, calls = Suc n\<rparr>"
  using assms by (subst fetchWithRetry_loop.simps) simp

lemma loop_final:
  assumes "fetch n = Inr r" and "\<not> retryable (status r)"
  shows "fetchWithRetry_loop fetch maxRetries attempt n ds =
         \<lparr>outcome = Inr r, delays = ds, calls = Suc n\<rparr>"
  using assms by (subst fetchWithRetry_loop.simps) simp

lemma loop_calls:
  "n < calls (fetchWithRetry_loop fetch maxRetries attempt n ds) \<and>
   (\<forall>k. n \<le> k \<and> Suc k < calls (fetchWithRetry_loop fetch maxRetries attempt n ds)
      \<longrightarrow> (\<exists>r. fetch k = Inr r \<and> retryable (status r)))"
proof (induction fetch maxRetries attempt n ds rule: fetchWithRetry_loop.induct)
  case (1 fetch maxRetries attempt n ds)
  show ?case
  proof (cases "attempt < maxRetries \<and> (\<exists>r. fetch n = Inr r \<and> retryable (status r))")
    case True
    then obtain r where r: "fetch n = Inr r" "retryable (status r)" and a: "attempt < maxRetries"
      by blast
    have eq: "fetchWithRetry_loop fetch maxRetries attempt n ds =
        fetchWithRetry_loop fetch maxRetries (attempt + 1) (Suc n)
          (ds @ [2 ^ nat attempt * 2000])"
      using a r by (rule loop_retry)
    have ih: "Suc n < calls (fetchWithRetry_loop fetch maxRetries (attempt + 1) (Suc n)
          (ds @ [2 ^ nat attempt * 2000])) \<and>
        (\<forall>k. Suc n \<le> k \<and> Suc k < calls (fetchWithRetry_loop fetch maxRetries (attempt + 1)
            (Suc n) (ds @ [2 ^ nat attempt * 2000]))
          \<longrightarrow> (\<exists>r. fetch k = Inr r \<and> retryable (status r)))"
      using a r by (intro "1.IH") auto
    show ?thesis
      unfolding eq using ih r by (metis Suc_leI Suc_lessD le_neq_implies_less)
  next
    case False
    then have "calls (fetchWithRetry_loop fetch maxRetries attempt n ds) = Suc n"
      by (subst fetchWithRetry_loop.simps) (auto split: sum.splits)
    then show ?thesis by auto
  qed
qed

lemma loop_outcome:
  "outcome (fetchWithRetry_loop fetch maxRetries attempt n ds) =
     fetch (calls (fetchWithRetry_loop fetch maxRetries attempt n ds) - 1) \<and>
   length (delays (fetchWithRetry_loop fetch maxRetries attempt n ds)) + n =
     length ds + (calls (fetchWithRetry_loop fetch maxRetries attempt n ds) - 1)"
proof (induction fetch maxRetries attempt n ds rule: fetchWithRetry_loop.induct)
  case (1 fetch maxRetries attempt n ds)
  show ?case
  proof (cases "attempt < maxRetries \<and> (\<exists>r. fetch n = Inr r \<and> retryable (status r))")
    case True
    then obtain r where r: "fetch n = Inr r" "retryable (status r)" and a: "attempt < maxRetries"
      by blast
    have eq: "fetchWithRetry_loop fetch maxRetries attempt n ds =
        fetchWithRetry_loop fetch maxRetries (attempt + 1) (Suc n)
          (ds @ [2 ^ nat attempt * 2000])"
      using a r by (rule loop_retry)
    have "Suc n < calls (fetchWithRetry_loop fetch maxRetries (attempt + 1) (Suc n)
          (ds @ [2 ^ nat attempt * 2000]))"
      using loop_calls by blast
    moreover have "outcome (fetchWithRetry_loop fetch maxRetries (attempt + 1) (Suc n)
          (ds @ [2 ^ nat attempt * 2000])) =
        fetch (calls (fetchWithRetry_loop fetch maxRetries (attempt + 1) (Suc n)
          (ds @ [2 ^ nat attempt * 2000])) - 1) \<and>
      length (delays (fetchWithRetry_loop fetch maxRetries (attempt + 1) (Suc n)
          (ds @ [2 ^ nat attempt * 2000]))) + Suc n =
        length (ds @ [2 ^ nat attempt * 2000]) +
        (calls (fetchWithRetry_loop fetch maxRetries (attempt + 1) (Suc n)
          (ds @ [2 ^ nat attempt * 2000])) - 1)"
      using a r by (intro "1.IH") auto
    ultimately show ?thesis
      unfolding eq by auto
  next
    case False
    then show ?thesis
      by (subst (1 2 3 4) fetchWithRetry_loop.simps) (auto split: sum.splits)
  qed
qed

text \<open>
  C3. Whenever the wrapper calls \<open>fetch\<close> again after its \<open>k\<close>-th call, that call
  returned a response with status 429 or 500..599. The caller gets the outcome of the
  last call made, and one delay was waited before each call after the first. So a
  response with any other status ends the run at once; when it is the first response,
  it is returned after one call and no delay.
\<close>

theorem retry_only_transient:
  "(\<forall>k. Suc k < calls (fetchWithRetry fetch maxRetries) \<longrightarrow>
      (\<exists>r. fetch k = Inr r \<and> (status r = 429 \<or> (500 \<le> status r \<and> status r \<le> 599)))) \<and>
   outcome (fetchWithRetry fetch maxRetries) = fetch (calls (fetchWithRetry fetch maxRetries) - 1) \<and>
   length (delays (fetchWithRetry fetch maxRetries)) = calls (fetchWithRetry fetch maxRetries) - 1 \<and>
   (\<forall>r. fetch 0 = Inr r \<and> status r \<noteq> 429 \<and> \<not> (500 \<le> status r \<and> status r \<le> 599) \<longrightarrow>
      fetchWithRetry fetch maxRetries = \<lparr>outcome = Inr r, delays = [], calls = 1\<rparr>)"
proof -
  have "\<forall>k. Suc k < calls (fetchWithRetry fetch maxRetries) \<longrightarrow>
      (\<exists>r. fetch k = Inr r \<and> retryable (status r))"
    using loop_calls [of 0 fetch maxRetries 0 "[]"] by (simp add: fetchWithRetry_def)
  moreover have "fetchWithRetry fetch maxRetries = \<lparr>outcome = Inr r, delays = [], calls = 1\<rparr>"
    if "fetch 0 = Inr r" and "\<not> retryable (status r)" for r
    using that by (simp add: fetchWithRetry_def loop_final)
  moreover have "outcome (fetchWithRetry fetch maxRetries) =
        fetch (calls (fetchWithRetry fetch maxRetries) - 1)"
    and "length (delays (fetchWithRetry fetch maxRetries)) =
        calls (fetchWithRetry fetch maxRetries) - 1"
    using loop_outcome [of fetch maxRetries 0 0 "[]"] by (simp_all add: fetchWithRetry_def)
  ultimately show ?thesis
    by (simp add: retryable_def)
qed

theorem retry_only_transient_witness:
  "fetchWithRetry (\<lambda>k. Inr \<lparr>status = 404\<rparr>) 3
     = \<lparr>outcome = Inr \<lparr>status = 404\<rparr>, delays = [], calls = 1\<rparr> \<and>
   calls (fetchWithRetry (\<lambda>k. Inr \<lparr>status = if k = 0 then 503 else 200\<rparr>) 3) = 2 \<and>
   (\<exists>r. (Inr \<lparr>status = 503\<rparr> :: fetch_error + Response) = Inr r \<and>
        (status r = 429 \<or> (500 \<le> status r \<and> status r \<le> 599)))"
proof -
  have c: "calls (fetchWithRetry (\<lambda>k. Inr \<lparr>status = if k = 0 then 503 else 200\<rparr>) 3) = 2"
    by (simp add: fetchWithRetry_def retryable_def fetchWithRetry_loop.simps)
  show ?thesis
    using retry_only_transient [of "\<lambda>k. Inr \<lparr>status = 404\<rparr>" 3]
      retry_only_transient [of "\<lambda>k. Inr \<lparr>status = if k = 0 then 503 else 200\<rparr>" 3] c
    by simp
qed

text \<open>
  C4. With \<open>maxRetries = 3\<close> and requests that keep returning status 500, the wrapper
  makes four calls, the first and three retries, waits 2000, 4000 and 8000 milliseconds
  before the retries, and returns the response of the last call, still with status 500,
  as a value.
\<close>

theorem exhausted_retries_return_last:
  assumes "\<forall>k\<le>3. \<exists>r. fetch k = Inr r \<and> status r = 500"
  shows "calls (fetchWithRetry fetch 3) = 4 \<and>
         delays (fetchWithRetry fetch 3) = [2000, 4000, 8000] \<and>
         outcome (fetchWithRetry fetch 3) = fetch 3 \<and>
         (\<exists>r. outcome (fetchWithRetry fetch 3) = Inr r \<and> status r = 500)"
proof -
  have ex: "\<exists>r. fetch k = Inr r \<and> status r = 500" if "k \<le> 3" for k
    using assms that by blast
  obtain r0 where r0: "fetch 0 = Inr r0" "status r0 = 500"
    using ex [of 0] by auto
  obtain r1 where r1: "fetch 1 = Inr r1" "status r1 = 500"
    using ex [of 1] by auto
  obtain r2 where r2: "fetch 2 = Inr r2" "status r2 = 500"
    using ex [of 2] by auto
  obtain r3 where r3: "fetch 3 = Inr r3" "status r3 = 500"
    using ex [of 3] by auto
  note r = r0(1) r1(1) r2(1) r3(1) and s = r0(2) r1(2) r2(2) r3(2)
  have t: "retryable 500" by (simp add: retryable_def)
  have "fetchWithRetry fetch 3 = fetchWithRetry_loop fetch 3 1 1 [2000]"
    unfolding fetchWithRetry_def using loop_retry [of 0 3 fetch 0 r0 "[]"] r s t by simp
  also have "\<dots> = fetchWithRetry_loop fetch 3 2 2 [2000, 4000]"
    using loop_retry [of 1 3 fetch 1 r1 "[2000]"] r s t by (simp add: numeral_2_eq_2)
  also have "\<dots> = fetchWithRetry_loop fetch 3 3 3 [2000, 4000, 8000]"
    using loop_retry [of 2 3 fetch 2 r2 "[2000, 4000]"] r s t by (simp add: numeral_3_eq_3 numeral_2_eq_2)
  also have "\<dots> = \<lparr>outcome = Inr r3, delays = [2000, 4000, 8000], calls = 4\<rparr>"
    using loop_exhausted [of 3 3 fetch 3 r3 "[2000, 4000, 8000]"] r s t by simp
  finally show ?thesis
    using r s by simp
qed

theorem exhausted_retries_return_last_witness:
  "calls (fetchWithRetry (\<lambda>k. Inr \<lparr>status = 500\<rparr>) 3) = 4 \<and>
   delays (fetchWithRetry (\<lambda>k. Inr \<lparr>status = 500\<rparr>) 3) = [2000, 4000, 8000] \<and>
   outcome (fetchWithRetry (\<lambda>k. Inr \<lparr>status = 500\<rparr>) 3) = Inr \<lparr>status = 500\<rparr>"
  using exhausted_retries_return_last [of "\<lambda>k. Inr \<lparr>status = 500\<rparr>"] by simp

section \<open>The normalized base address\<close>








lemma trim_surrounded:
  assumes "\<forall>c\<in>set pre. is_whitespace c" and "\<forall>c\<in>set post. is_whitespace c"
    and "\<forall>c\<in>set core. \<not> is_whitespace c"
  shows "trim (pre @ core @ post) = core"
proof (cases "core = []")
  case True
  have d: "dropWhile is_whitespace (pre @ core @ post) = []"
    using assms True by auto
  show ?thesis
    unfolding trim_def d using True by simp
next
  case False
  then obtain c cs where c: "core = c # cs" by (cases core) auto
  from False obtain bs b where b: "core = bs @ [b]" by (cases core rule: rev_cases) auto
  have "dropWhile is_whitespace (pre @ core @ post) = core @ post"
    using assms c by (simp add: dropWhile_append2)
  moreover have "dropWhile is_whitespace (rev post @ rev core) = dropWhile is_whitespace (rev core)"
    using assms(2) by (intro dropWhile_append2) simp
  moreover have "dropWhile is_whitespace (rev core) = rev core"
    using assms(3) b by simp
  ultimately show ?thesis by (simp add: trim_def)
qed

lemma strip_all_slashes:
  "\<forall>c\<in>set core. c = CHR ''/'' \<Longrightarrow> strip_trailing_slashes core = []"
  by (simp add: strip_trailing_slashes_def)

text \<open>
  C10. A host that consists of slashes only, with or without whitespace around them,
  gives the default origin and not a relative path: the slashes are stripped and the
  emptiness test comes before the test for a leading slash.
\<close>

theorem slashes_only_host_defaults:
  assumes "\<forall>c\<in>set pre. is_whitespace c" and "\<forall>c\<in>set post. is_whitespace c"
    and "\<forall>c\<in>set slashes. c = CHR ''/''"
  shows "normalizeBaseUrl (pre @ slashes @ post) = default_origin \<and>
         \<not> startsWith (normalizeBaseUrl (pre @ slashes @ post)) ''/''"
proof -
  have "\<forall>c\<in>set slashes. \<not> is_whitespace c"
    using assms(3) by (auto simp: is_whitespace_def)
  with assms have "trim (pre @ slashes @ post) = slashes"
    by (intro trim_surrounded)
  then have "normalizeBaseUrl (pre @ slashes @ post) = default_origin"
    using assms(3) by (simp add: normalizeBaseUrl_def strip_all_slashes)
  then show ?thesis
    by (simp add: default_origin_def startsWith_def)
qed

theorem slashes_only_host_defaults_witness:
  "is_whitespace CHR '' '' \<and>
   normalizeBaseUrl '' // '' = ''https://generativelanguage.googleapis.com'' \<and>
   normalizeBaseUrl ''/'' = default_origin"
  using slashes_only_host_defaults [of "'' ''" "'' ''" "''//''"]
    slashes_only_host_defaults [of "[]" "[]" "''/''"]
  by (simp add: is_whitespace_def default_origin_def)


section \<open>The lane of a dispatch\<close>











section \<open>Responses without an image, stored settings, descriptions\<close>

lemma scan_parts_no_inlineData:
  "\<forall>p\<in>set parts. \<exists>kvs. p = Obj kvs \<and> map_of kvs ''inlineData'' = None \<Longrightarrow>
   scan_parts base64ToBlobUrl parts = Inr None"
  by (induction parts) auto

text \<open>
  C7. When the parts of the first candidate of a resolved response (no parts when the
  response has none) are objects without a field \<open>inlineData\<close>, each of the three image
  operations returns \<open>undefined\<close>, the absence of an image, and throws nothing.
\<close>

theorem no_inline_image_is_absent:
  assumes "response_parts data = Inr (Arr parts)"
    and "\<forall>p\<in>set parts. \<exists>kvs. p = Obj kvs \<and> map_of kvs ''inlineData'' = None"
  shows "generateStoryboardFrame base64ToBlobUrl (Inr data) = Inr None \<and>
         editFrame base64ToBlobUrl (Inr data) = Inr None \<and>
         refineImageClarity base64ToBlobUrl (Inr data) = Inr None"
proof -
  have "first_inline_image base64ToBlobUrl data = Inr None"
    using assms by (simp add: first_inline_image_def scan_parts_no_inlineData)
  then show ?thesis
    by (simp add: generateStoryboardFrame_def editFrame_def refineImageClarity_def)
qed

theorem no_inline_image_is_absent_witness:
  "response_parts
     (Obj [(''candidates'', Arr [Obj [(''content'',
        Obj [(''parts'', Arr [Obj [(''text'', Str ''No image today'')]])])]])])
     = Inr (Arr [Obj [(''text'', Str ''No image today'')]]) \<and>
   generateStoryboardFrame (\<lambda>b64. Inl OtherError)
     (Inr (Obj [(''candidates'', Arr [Obj [(''content'',
        Obj [(''parts'', Arr [Obj [(''text'', Str ''No image today'')]])])]])]))
     = Inr None \<and>
   editFrame (\<lambda>b64. Inl OtherError) (Inr (Obj [])) = Inr None"
proof -
  have 1: "response_parts
     (Obj [(''candidates'', Arr [Obj [(''content'',
        Obj [(''parts'', Arr [Obj [(''text'', Str ''No image today'')]])])]])])
     = Inr (Arr [Obj [(''text'', Str ''No image today'')]])"
    by (simp add: response_parts_def)
  have 2: "\<forall>p\<in>set [Obj [(''text'', Str ''No image today'')]].
      \<exists>kvs. p = Obj kvs \<and> map_of kvs ''inlineData'' = None"
    by simp
  have 3: "response_parts (Obj []) = Inr (Arr [])"
    by (simp add: response_parts_def)
  have 4: "\<forall>p\<in>set []. \<exists>kvs. p = Obj kvs \<and> map_of kvs ''inlineData'' = None"
    by simp
  from no_inline_image_is_absent [OF 1 2] no_inline_image_is_absent [OF 3 4] 1
  show ?thesis by blast
qed

text \<open>
  C8. \<open>getConfig\<close> throws nothing, whatever is stored and whatever the parser does with
  it; a blob on which the parser throws gives what an absent item gives, the built-in
  configuration, which holds a value for each of the four fields.
\<close>

theorem getConfig_never_throws:
  "(\<exists>v. getConfig JSON_parse saved = Inr v) \<and>
   (JSON_parse s = Inl e \<longrightarrow> getConfig JSON_parse (Some s) = getConfig JSON_parse None) \<and>
   getConfig JSON_parse None = Inr builtin_config \<and>
   get_prop builtin_config ''apiHost'' = Inr (Str []) \<and>
   get_prop builtin_config ''apiKey'' = Inr (Str []) \<and>
   get_prop builtin_config ''textModel'' = Inr (Str ''gemini-3-flash-preview'') \<and>
   get_prop builtin_config ''imageModel'' = Inr (Str ''gemini-3-pro-image-preview'')"
  by (auto simp: getConfig_def builtin_config_def split: option.splits sum.splits)

theorem getConfig_never_throws_witness:
  "(\<lambda>s. Inl SyntaxError :: js_error + jsval) ''{broken'' = Inl SyntaxError \<and>
   getConfig (\<lambda>s. Inl SyntaxError) (Some ''{broken'') = Inr builtin_config \<and>
   getConfig (\<lambda>s. Inl SyntaxError) None = Inr builtin_config"
  using getConfig_never_throws [of "\<lambda>s. Inl SyntaxError" None "''{broken''" SyntaxError]
  by simp

lemma falsy_index0: "\<not> truthy v \<Longrightarrow> opt_index0 v = Undefined"
  by (cases v) auto

text \<open>
  C9, as the code has it. With \<open>parts\<close> the parts of the first candidate of a resolved
  response (no parts when the response has none), \<open>analyzeAsset\<close> returns the text of
  the first of the parts when there is one and it is truthy (for a string: not empty),
  and the placeholder \<open>Asset\<close> otherwise, whatever the later parts hold. This is the
  first text part, or the placeholder when no part has a text, exactly when the first
  part has a text or no part has one.
\<close>

theorem analyzeAsset_first_part:
  assumes "response_parts data = Inr (Arr parts)"
  shows "analyzeAsset (Inr data) =
           Inr (case parts of
                  [] \<Rightarrow> Str ''Asset''
                | part # later \<Rightarrow>
                    if truthy (opt_prop part ''text'') then opt_prop part ''text''
                    else Str ''Asset'') \<and>
         (parts = [] \<or> truthy (opt_prop (hd parts) ''text'') \<or>
            (\<forall>p\<in>set parts. \<not> truthy (opt_prop p ''text''))
          \<longrightarrow> analyzeAsset (Inr data) = Inr (spec_first_text_part parts))"
proof -
  from assms obtain candidates where c: "get_prop data ''candidates'' = Inr candidates"
    by (auto simp: response_parts_def split: sum.splits)
  define P where "P = opt_prop (opt_prop (opt_index0 candidates) ''content'') ''parts''"
  from assms c have P: "(if truthy P then P else Arr []) = Arr parts"
    by (auto simp: response_parts_def P_def Let_def split: if_splits)
  have i: "opt_index0 P = (case parts of [] \<Rightarrow> Undefined | part # later \<Rightarrow> part)"
  proof (cases "truthy P")
    case True
    with P show ?thesis by simp
  next
    case False
    with P have "parts = []" by simp
    with False show ?thesis by (simp add: falsy_index0)
  qed
  have a: "analyzeAsset (Inr data) =
      Inr (if truthy (opt_prop (opt_index0 P) ''text'') then opt_prop (opt_index0 P) ''text''
           else Str ''Asset'')"
    using c by (simp add: analyzeAsset_def P_def Let_def)
  have 1: "analyzeAsset (Inr data) =
      Inr (case parts of
             [] \<Rightarrow> Str ''Asset''
           | part # later \<Rightarrow>
               if truthy (opt_prop part ''text'') then opt_prop part ''text''
               else Str ''Asset'')"
    unfolding a i by (cases parts) auto
  have n: "spec_first_text_part ps = Str ''Asset''"
    if "\<forall>p\<in>set ps. \<not> truthy (opt_prop p ''text'')" for ps
    using that by (induction ps) auto
  have 2: "analyzeAsset (Inr data) = Inr (spec_first_text_part parts)"
    if "parts = [] \<or> truthy (opt_prop (hd parts) ''text'') \<or>
        (\<forall>p\<in>set parts. \<not> truthy (opt_prop p ''text''))"
  proof (cases parts)
    case Nil
    then show ?thesis unfolding 1 by simp
  next
    case (Cons part later)
    show ?thesis
    proof (cases "truthy (opt_prop part ''text'')")
      case True
      with Cons show ?thesis unfolding 1 by simp
    next
      case False
      with that Cons have "\<forall>p\<in>set parts. \<not> truthy (opt_prop p ''text'')" by simp
      then have "spec_first_text_part parts = Str ''Asset''" by (rule n)
      with False Cons show ?thesis unfolding 1 by simp
    qed
  qed
  from 1 2 show ?thesis by blast
qed

text \<open>
  C9 as stated fails on a response whose first part is an image and whose second part
  is a text: the first text part is the second part, and the placeholder is returned.
\<close>

theorem analyzeAsset_later_text_counterexample:
  "response_parts
     (Obj [(''candidates'', Arr [Obj [(''content'', Obj [(''parts'',
        Arr [Obj [(''inlineData'', Obj [(''data'', Str ''AAAA''), (''mimeType'', Str ''image/png'')])],
             Obj [(''text'', Str ''A red car'')]])])]])])
     = Inr (Arr [Obj [(''inlineData'', Obj [(''data'', Str ''AAAA''), (''mimeType'', Str ''image/png'')])],
                 Obj [(''text'', Str ''A red car'')]]) \<and>
   spec_first_text_part
     [Obj [(''inlineData'', Obj [(''data'', Str ''AAAA''), (''mimeType'', Str ''image/png'')])],
      Obj [(''text'', Str ''A red car'')]] = Str ''A red car'' \<and>
   analyzeAsset
     (Inr (Obj [(''candidates'', Arr [Obj [(''content'', Obj [(''parts'',
        Arr [Obj [(''inlineData'', Obj [(''data'', Str ''AAAA''), (''mimeType'', Str ''image/png'')])],
             Obj [(''text'', Str ''A red car'')]])])]])]))
     = Inr (Str ''Asset'')"
  by (simp add: response_parts_def analyzeAsset_def)

theorem analyzeAsset_first_part_witness:
  "response_parts
     (Obj [(''candidates'', Arr [Obj [(''content'', Obj [(''parts'',
        Arr [Obj [(''text'', Str ''A red car'')], Obj [(''text'', Str ''parked'')]])])]])])
     = Inr (Arr [Obj [(''text'', Str ''A red car'')], Obj [(''text'', Str ''parked'')]]) \<and>
   analyzeAsset
     (Inr (Obj [(''candidates'', Arr [Obj [(''content'', Obj [(''parts'',
        Arr [Obj [(''text'', Str ''A red car'')], Obj [(''text'', Str ''parked'')]])])]])]))
     = Inr (Str ''A red car'') \<and>
   spec_first_text_part [Obj [(''text'', Str ''A red car'')], Obj [(''text'', Str ''parked'')]]
     = Str ''A red car''"
proof -
  have 1: "response_parts
     (Obj [(''candidates'', Arr [Obj [(''content'', Obj [(''parts'',
        Arr [Obj [(''text'', Str ''A red car'')], Obj [(''text'', Str ''parked'')]])])]])])
     = Inr (Arr [Obj [(''text'', Str ''A red car'')], Obj [(''text'', Str ''parked'')]])"
    by (simp add: response_parts_def)
  from analyzeAsset_first_part [OF 1] 1 show ?thesis by simp
qed

end
